theory Spec2Isabelle
  imports Main "HOL-Library.Word" "HOL-Library.Sublist"
begin

section \<open>Strings of the host language\<close>

text \<open>
  A JavaScript string is a sequence of 16-bit code units. The report template of
  \<^verbatim>\<open>askQuestion\<close> holds the code unit U+2022, and \<^verbatim>\<open>trim\<close> strips code units beyond
  the 8-bit range, so the model keeps the code units and writes ASCII literals through
  \<open>lit\<close>.
\<close>

type_synonym jschar = "16 word"
type_synonym jsstring = "jschar list"

definition lit :: "string \<Rightarrow> jsstring" where
  "lit cs = map of_char cs"

text \<open>
  \<^verbatim>\<open>String.prototype.trim\<close> removes, at both ends, the code units that ECMAScript
  calls WhiteSpace (TAB, VT, FF, SP, NBSP, ZWNBSP and the space separators of Unicode)
  or LineTerminator (LF, CR, LS, PS).
\<close>

definition isWhiteSpace :: "jschar \<Rightarrow> bool" where
  "isWhiteSpace c =
     (c = 0x0009 \<or> c = 0x000B \<or> c = 0x000C \<or> c = 0x0020 \<or> c = 0x00A0 \<or> c = 0xFEFF \<or>
      c = 0x1680 \<or> (0x2000 \<le> c \<and> c \<le> 0x200A) \<or> c = 0x202F \<or> c = 0x205F \<or> c = 0x3000 \<or>
      c = 0x000A \<or> c = 0x000D \<or> c = 0x2028 \<or> c = 0x2029)"

definition trim :: "jsstring \<Rightarrow> jsstring" where
  "trim str = rev (dropWhile isWhiteSpace (rev (dropWhile isWhiteSpace str)))"

text \<open>Truthiness of a string value: only the empty string is falsy.\<close>

definition truthy :: "jsstring \<Rightarrow> bool" where
  "truthy str = (str \<noteq> [])"


section \<open>The state of the component\<close>

text \<open>
  A \<^verbatim>\<open>File\<close> object, as far as the component reads it: \<^verbatim>\<open>file.name\<close> and
  \<^verbatim>\<open>droppedFile.type\<close>.
\<close>

record jsfile =
  name :: jsstring
  type :: jsstring

text \<open>
  The object handed to \<^verbatim>\<open>setUploadStatus\<close>: \<^verbatim>\<open>{ type: 'success' | 'error', message }\<close>.
  Its \<^verbatim>\<open>type\<close> property is the field \<open>status_type\<close> here, since \<open>type\<close> is the field
  of \<open>jsfile\<close>.
\<close>

datatype status_type = Success | Error

record status =
  status_type :: status_type
  message :: jsstring

text \<open>
  The seven \<^verbatim>\<open>useState\<close> slots of \<^verbatim>\<open>App\<close>. The slot \<^verbatim>\<open>file\<close> is the field \<open>file'\<close>
  (\<open>file\<close> is a keyword of the theory language). \<open>None\<close> stands for both \<^verbatim>\<open>null\<close> and
  \<^verbatim>\<open>undefined\<close>: the code only ever tests the slot for truthiness.
\<close>

record app_state =
  file' :: "jsfile option"
  question :: jsstring
  report :: jsstring
  isUploading :: bool
  isAsking :: bool
  uploadStatus :: "status option"
  isDragging :: bool

definition initial_state :: app_state where
  "initial_state =
     \<lparr>file' = None, question = [], report = [], isUploading = False, isAsking = False,
      uploadStatus = None, isDragging = False\<rparr>"

text \<open>The setters returned by \<^verbatim>\<open>useState\<close>: each one writes its own slot.\<close>

definition setFile :: "jsfile option \<Rightarrow> app_state \<Rightarrow> app_state" where
  "setFile v s = s\<lparr>file' := v\<rparr>"

definition setQuestion :: "jsstring \<Rightarrow> app_state \<Rightarrow> app_state" where
  "setQuestion v s = s\<lparr>question := v\<rparr>"

definition setReport :: "jsstring \<Rightarrow> app_state \<Rightarrow> app_state" where
  "setReport v s = s\<lparr>report := v\<rparr>"

definition setIsUploading :: "bool \<Rightarrow> app_state \<Rightarrow> app_state" where
  "setIsUploading v s = s\<lparr>isUploading := v\<rparr>"

definition setIsAsking :: "bool \<Rightarrow> app_state \<Rightarrow> app_state" where
  "setIsAsking v s = s\<lparr>isAsking := v\<rparr>"

definition setUploadStatus :: "status option \<Rightarrow> app_state \<Rightarrow> app_state" where
  "setUploadStatus v s = s\<lparr>uploadStatus := v\<rparr>"

definition setIsDragging :: "bool \<Rightarrow> app_state \<Rightarrow> app_state" where
  "setIsDragging v s = s\<lparr>isDragging := v\<rparr>"


section \<open>Promises and timers\<close>

text \<open>
  Both simulations await \<^verbatim>\<open>new Promise(resolve => setTimeout(resolve, ms))\<close>. The executor
  hands one of the promise's two functions to a timer; when the timer fires, the promise
  settles accordingly and the suspended \<^verbatim>\<open>async\<close> function resumes. A pending timer
  records its delay, which function it will call, and who awaits the promise: the rest of
  \<^verbatim>\<open>uploadFile\<close> with the \<^verbatim>\<open>file\<close> its closure captured, or the rest of \<^verbatim>\<open>askQuestion\<close>
  with the captured \<^verbatim>\<open>question\<close>.
\<close>

datatype promise_fn = Resolve | Reject

datatype settled = Fulfilled | Rejected

fun settle :: "promise_fn \<Rightarrow> settled" where
  "settle Resolve = Fulfilled"
| "settle Reject = Rejected"

datatype awaiter = UploadAwait jsfile | AskAwait jsstring

record timer =
  ms :: nat
  callback :: promise_fn
  awaiter :: awaiter

text \<open>\<^verbatim>\<open>new Promise(resolve => setTimeout(resolve, d))\<close>, awaited by \<open>k\<close>.\<close>

definition delay :: "nat \<Rightarrow> awaiter \<Rightarrow> timer" where
  "delay d k = \<lparr>ms = d, callback = Resolve, awaiter = k\<rparr>"


section \<open>The upload simulation\<close>

text \<open>
  \<^verbatim>\<open>uploadFile\<close> up to its \<^verbatim>\<open>await\<close>: the guard, the two writes, and the timer of the
  promise it awaits. No timer means the function returned at the guard.
\<close>

definition uploadFile :: "app_state \<Rightarrow> app_state \<times> timer option" where
  "uploadFile s =
     (case file' s of
        None \<Rightarrow> (s, None)
      | Some f \<Rightarrow>
          (setUploadStatus None (setIsUploading True s), Some (delay 2000 (UploadAwait f))))"

text \<open>
  \<^verbatim>\<open>uploadFile\<close> from its \<^verbatim>\<open>await\<close> on: the rest of the \<^verbatim>\<open>try\<close> block when the promise
  is fulfilled, the \<^verbatim>\<open>catch\<close> block when it is rejected, then the \<^verbatim>\<open>finally\<close> block. The
  writes go to the state as it is when the function resumes.
\<close>

definition uploadFile_resume :: "jsfile \<Rightarrow> settled \<Rightarrow> app_state \<Rightarrow> app_state" where
  "uploadFile_resume f r s =
     setIsUploading False
       (case r of
          Fulfilled \<Rightarrow>
            setUploadStatus
              (Some \<lparr>status_type = Success, message = lit ''PDF uploaded: '' @ name f\<rparr>) s
        | Rejected \<Rightarrow>
            setUploadStatus
              (Some \<lparr>status_type = Error, message = lit ''Upload failed. Please try again.''\<rparr>) s)"


section \<open>The query simulation\<close>

definition report_template :: "jsstring \<Rightarrow> jsstring" where
  "report_template q =
     lit ''Based on the uploaded document, here's what I found regarding \"'' @ q @
     lit ''\":'' @ [0x000A, 0x000A] @
     lit ''This is a simulated response that would contain detailed analysis from your PDF. '' @
     lit ''The actual implementation would process the document and provide relevant '' @
     lit ''insights based on your question.'' @ [0x000A, 0x000A] @
     lit ''Key findings:'' @ [0x000A, 0x2022] @
     lit '' Point 1: Relevant information extracted'' @ [0x000A, 0x2022] @
     lit '' Point 2: Additional context provided'' @ [0x000A, 0x2022] @
     lit '' Point 3: Summary of findings'' @ [0x000A, 0x000A] @
     lit ''This response demonstrates the enhanced UI with smooth animations and premium styling.''"

definition query_error_text :: jsstring where
  "query_error_text = lit ''Error processing your question. Please try again.''"

definition askQuestion :: "app_state \<Rightarrow> app_state \<times> timer option" where
  "askQuestion s =
     (if \<not> truthy (trim (question s)) then (s, None)
      else (setIsAsking True s, Some (delay 3000 (AskAwait (question s)))))"

definition askQuestion_resume :: "jsstring \<Rightarrow> settled \<Rightarrow> app_state \<Rightarrow> app_state" where
  "askQuestion_resume q r s =
     setIsAsking False
       (case r of
          Fulfilled \<Rightarrow> setReport (report_template q) s
        | Rejected \<Rightarrow> setReport query_error_text s)"


section \<open>The drop target and the inputs\<close>

definition handleDragOver :: "app_state \<Rightarrow> app_state" where
  "handleDragOver s = setIsDragging True s"

definition handleDragLeave :: "app_state \<Rightarrow> app_state" where
  "handleDragLeave s = setIsDragging False s"

text \<open>
  \<^verbatim>\<open>files[0]\<close> of a \<^verbatim>\<open>FileList\<close>: the first file, \<^verbatim>\<open>undefined\<close> when the list is empty.
\<close>

fun first_file :: "jsfile list \<Rightarrow> jsfile option" where
  "first_file [] = None"
| "first_file (f # fs) = Some f"

definition handleDrop :: "jsfile list \<Rightarrow> app_state \<Rightarrow> app_state" where
  "handleDrop files s =
     (let s1 = setIsDragging False s
      in case first_file files of
           None \<Rightarrow> s1
         | Some droppedFile \<Rightarrow>
             if type droppedFile = lit ''application/pdf'' then setFile (Some droppedFile) s1
             else s1)"

text \<open>The \<^verbatim>\<open>onChange\<close> of the file input: \<^verbatim>\<open>e => setFile(e.target.files[0])\<close>.\<close>

definition fileInput_onChange :: "jsfile list \<Rightarrow> app_state \<Rightarrow> app_state" where
  "fileInput_onChange files s = setFile (first_file files) s"

text \<open>The \<^verbatim>\<open>onChange\<close> of the text input: \<^verbatim>\<open>e => setQuestion(e.target.value)\<close>.\<close>

definition questionInput_onChange :: "jsstring \<Rightarrow> app_state \<Rightarrow> app_state" where
  "questionInput_onChange v s = setQuestion v s"

text \<open>Its \<^verbatim>\<open>onKeyPress\<close>: \<^verbatim>\<open>e => e.key === 'Enter' && askQuestion()\<close>.\<close>

definition questionInput_onKeyPress :: "jsstring \<Rightarrow> app_state \<Rightarrow> app_state \<times> timer option" where
  "questionInput_onKeyPress key s = (if key = lit ''Enter'' then askQuestion s else (s, None))"


section \<open>Events of the rendered component\<close>

text \<open>
  What the user can do to the rendered elements. The drop target has the props
  \<^verbatim>\<open>onDragOver\<close>, \<^verbatim>\<open>onDragLeave\<close> and \<^verbatim>\<open>onDrop\<close> and no \<^verbatim>\<open>onDragEnter\<close>: a drag-enter event
  reaches no handler. An element rendered with \<^verbatim>\<open>disabled\<close> delivers no event. A
  handler reads the state of the render it was created in; the component is taken to be
  rendered again after every event, so that is the current state.
\<close>

datatype event =
    DragEnter
  | DragOver
  | DragLeave
  | Drop "jsfile list"
  | FileInputChange "jsfile list"
  | UploadClick
  | QuestionInputChange jsstring
  | QuestionKeyPress jsstring
  | AskClick

fun enabled :: "event \<Rightarrow> app_state \<Rightarrow> bool" where
  "enabled (FileInputChange files) s = (\<not> isUploading s)"
| "enabled UploadClick s = (\<not> (file' s = None \<or> isUploading s))"
| "enabled (QuestionInputChange v) s = (\<not> isAsking s)"
| "enabled (QuestionKeyPress key) s = (\<not> isAsking s)"
| "enabled AskClick s = (\<not> (\<not> truthy (trim (question s)) \<or> isAsking s))"
| "enabled e s = True"

fun handler :: "event \<Rightarrow> app_state \<Rightarrow> app_state \<times> timer option" where
  "handler DragEnter s = (s, None)"
| "handler DragOver s = (handleDragOver s, None)"
| "handler DragLeave s = (handleDragLeave s, None)"
| "handler (Drop files) s = (handleDrop files s, None)"
| "handler (FileInputChange files) s = (fileInput_onChange files s, None)"
| "handler UploadClick s = uploadFile s"
| "handler (QuestionInputChange v) s = (questionInput_onChange v s, None)"
| "handler (QuestionKeyPress key) s = questionInput_onKeyPress key s"
| "handler AskClick s = askQuestion s"

definition dispatch :: "event \<Rightarrow> app_state \<Rightarrow> app_state \<times> timer option" where
  "dispatch e s = (if enabled e s then handler e s else (s, None))"

text \<open>A timer fires: its promise settles and the awaiting function resumes.\<close>

definition resume :: "timer \<Rightarrow> app_state \<Rightarrow> app_state" where
  "resume t s =
     (case awaiter t of
        UploadAwait f \<Rightarrow> uploadFile_resume f (settle (callback t)) s
      | AskAwait q \<Rightarrow> askQuestion_resume q (settle (callback t)) s)"


section \<open>The component with its pending timers\<close>

text \<open>
  \<^verbatim>\<open>setTimeout\<close> numbers its timers; a timer stays pending until it fires. Which pending
  timer fires next is left open, so every order of completion is covered.
\<close>

record sys =
  ui :: app_state
  timers :: "nat \<rightharpoonup> timer"
  next_id :: nat

definition initial_sys :: sys where
  "initial_sys = \<lparr>ui = initial_state, timers = Map.empty, next_id = 0\<rparr>"

fun schedule :: "timer option \<Rightarrow> sys \<Rightarrow> sys" where
  "schedule None \<sigma> = \<sigma>"
| "schedule (Some t) \<sigma> = \<sigma>\<lparr>timers := (timers \<sigma>)(next_id \<sigma> \<mapsto> t), next_id := Suc (next_id \<sigma>)\<rparr>"

datatype action = User event | Fire nat

fun sys_step :: "action \<Rightarrow> sys \<Rightarrow> sys" where
  "sys_step (User e) \<sigma> =
     (case dispatch e (ui \<sigma>) of (s', t) \<Rightarrow> schedule t (\<sigma>\<lparr>ui := s'\<rparr>))"
| "sys_step (Fire i) \<sigma> =
     (case timers \<sigma> i of
        None \<Rightarrow> \<sigma>
      | Some t \<Rightarrow> \<sigma>\<lparr>ui := resume t (ui \<sigma>), timers := (timers \<sigma>)(i := None)\<rparr>)"

definition run :: "action list \<Rightarrow> sys \<Rightarrow> sys" where
  "run acts \<sigma> = fold sys_step acts \<sigma>"


section \<open>Operations in flight\<close>

text \<open>A pending timer belongs to an upload or to a query, by who awaits its promise.\<close>

definition upload_timer :: "sys \<Rightarrow> nat \<Rightarrow> bool" where
  "upload_timer \<sigma> i =
     (case timers \<sigma> i of
        None \<Rightarrow> False
      | Some t \<Rightarrow> (case awaiter t of UploadAwait f \<Rightarrow> True | AskAwait q \<Rightarrow> False))"

definition ask_timer :: "sys \<Rightarrow> nat \<Rightarrow> bool" where
  "ask_timer \<sigma> i =
     (case timers \<sigma> i of
        None \<Rightarrow> False
      | Some t \<Rightarrow> (case awaiter t of UploadAwait f \<Rightarrow> False | AskAwait q \<Rightarrow> True))"

text \<open>An action completes an operation when it fires that operation's timer.\<close>

definition completes_upload :: "action \<Rightarrow> sys \<Rightarrow> bool" where
  "completes_upload a \<sigma> = (case a of User e \<Rightarrow> False | Fire i \<Rightarrow> upload_timer \<sigma> i)"

definition completes_query :: "action \<Rightarrow> sys \<Rightarrow> bool" where
  "completes_query a \<sigma> = (case a of User e \<Rightarrow> False | Fire i \<Rightarrow> ask_timer \<sigma> i)"

text \<open>
  Invariants of the running component: timer numbers are used once; a busy flag is set
  exactly while its operation has a timer pending, and each operation has at most one.
\<close>

definition busy_inv :: "sys \<Rightarrow> bool" where
  "busy_inv \<sigma> \<longleftrightarrow>
     (\<forall>i. next_id \<sigma> \<le> i \<longrightarrow> timers \<sigma> i = None) \<and>
     (isUploading (ui \<sigma>) \<longleftrightarrow> (\<exists>i. upload_timer \<sigma> i)) \<and>
     (\<forall>i j. upload_timer \<sigma> i \<longrightarrow> upload_timer \<sigma> j \<longrightarrow> i = j) \<and>
     (isAsking (ui \<sigma>) \<longleftrightarrow> (\<exists>i. ask_timer \<sigma> i)) \<and>
     (\<forall>i j. ask_timer \<sigma> i \<longrightarrow> ask_timer \<sigma> j \<longrightarrow> i = j)"

text \<open>
  Every pending timer calls \<^verbatim>\<open>resolve\<close>; the outcome shown is a success; the report is empty
  or an instance of the template.
\<close>

definition ok_inv :: "sys \<Rightarrow> bool" where
  "ok_inv \<sigma> \<longleftrightarrow>
     (\<forall>i t. timers \<sigma> i = Some t \<longrightarrow> callback t = Resolve) \<and>
     (\<forall>st. uploadStatus (ui \<sigma>) = Some st \<longrightarrow> status_type st = Success) \<and>
     (report (ui \<sigma>) = [] \<or> (\<exists>q. report (ui \<sigma>) = report_template q))"


section \<open>Sample inputs\<close>

definition pdf_file :: jsfile where
  "pdf_file = \<lparr>name = lit ''paper.pdf'', type = lit ''application/pdf''\<rparr>"

definition text_file :: jsfile where
  "text_file = \<lparr>name = lit ''notes.txt'', type = lit ''text/plain''\<rparr>"

definition blank_question_state :: app_state where
  "blank_question_state = initial_state\<lparr>question := [0x0020, 0x0009, 0x00A0, 0x000A]\<rparr>"

definition sample_question :: jsstring where
  "sample_question = lit '' What is the main result?''"

definition file_chosen :: "action list" where
  "file_chosen = [User (FileInputChange [pdf_file])]"

definition during_upload :: "action list" where
  "during_upload =
     [User DragOver, User (QuestionInputChange sample_question), User AskClick,
      User (Drop [text_file]), Fire 1, User UploadClick]"

definition question_typed :: "action list" where
  "question_typed = [User (QuestionInputChange sample_question)]"

definition during_query :: "action list" where
  "during_query =
     [User DragOver, User (FileInputChange [pdf_file]), User UploadClick, User AskClick,
      User (QuestionKeyPress (lit ''Enter'')), Fire 1, User DragLeave]"

definition sample_session :: "action list" where
  "sample_session =
     [User (FileInputChange [pdf_file]), User UploadClick,
      User (QuestionInputChange sample_question), User AskClick, Fire 0]"

definition uploaded_sys :: sys where
  "uploaded_sys = run [User (FileInputChange [pdf_file]), User UploadClick, Fire 0] initial_sys"


section \<open>Basic facts\<close>

lemma all_dropWhile: "(\<forall>x \<in> set (dropWhile P xs). P x) \<longleftrightarrow> (\<forall>x \<in> set xs. P x)"
  by (induction xs) auto

lemma trim_empty_iff: "trim str = [] \<longleftrightarrow> (\<forall>c \<in> set str. isWhiteSpace c)"
  by (simp add: trim_def dropWhile_eq_Nil_conv all_dropWhile)

lemma blank_iff: "\<not> truthy (trim str) \<longleftrightarrow> (\<forall>c \<in> set str. isWhiteSpace c)"
  by (simp add: truthy_def trim_empty_iff)

lemmas setters =
  setFile_def setQuestion_def setReport_def setIsUploading_def setIsAsking_def
  setUploadStatus_def setIsDragging_def

lemma not_blank:
  assumes "\<not> list_all isWhiteSpace (question s)"
  shows "truthy (trim (question s))"
proof -
  from assms have "\<not> (\<forall>c \<in> set (question s). isWhiteSpace c)"
    by (simp add: list_all_iff)
  with blank_iff [of "question s"] show ?thesis
    by blast
qed

lemmas handlers =
  dispatch_def handleDragOver_def handleDragLeave_def handleDrop_def Let_def
  fileInput_onChange_def questionInput_onChange_def questionInput_onKeyPress_def
  askQuestion_def uploadFile_def

lemma schedule_ui: "ui (schedule t \<sigma>) = ui \<sigma>"
  by (cases t) simp_all

lemmas eval_defs =
  run_def initial_sys_def initial_state_def dispatch_def handleDragOver_def handleDragLeave_def
  handleDrop_def Let_def fileInput_onChange_def questionInput_onChange_def
  questionInput_onKeyPress_def askQuestion_def uploadFile_def resume_def uploadFile_resume_def
  askQuestion_resume_def delay_def setters truthy_def trim_def isWhiteSpace_def
  completes_upload_def completes_query_def upload_timer_def ask_timer_def

lemma sys_step_User:
  "dispatch e (ui \<sigma>) = (s', t) \<Longrightarrow> sys_step (User e) \<sigma> = schedule t (\<sigma>\<lparr>ui := s'\<rparr>)"
  by simp

lemma run_Nil: "run [] \<sigma> = \<sigma>"
  by (simp add: run_def)

lemma run_Cons: "run (a # acts) \<sigma> = run acts (sys_step a \<sigma>)"
  by (simp add: run_def)

lemma run_append: "run (xs @ ys) \<sigma> = run ys (run xs \<sigma>)"
  by (simp add: run_def)

lemma resume_upload:
  "resume (delay d (UploadAwait f)) s =
     s\<lparr>uploadStatus := Some \<lparr>status_type = Success, message = lit ''PDF uploaded: '' @ name f\<rparr>,
       isUploading := False\<rparr>"
  by (simp add: resume_def delay_def uploadFile_resume_def setters)

lemma resume_ask:
  "resume (delay d (AskAwait q)) s = s\<lparr>report := report_template q, isAsking := False\<rparr>"
  by (simp add: resume_def delay_def askQuestion_resume_def setters)

lemma question_in_report: "sublist q (report_template q)"
  unfolding report_template_def by (rule sublist_appendI)

lemma report_opening:
  "prefix (lit ''Based on the uploaded document, here's what I found regarding \"'' @ q @ lit ''\":'')
     (report_template q)"
  unfolding report_template_def by simp

lemma report_nonempty: "report_template q \<noteq> []"
  by (simp add: report_template_def lit_def)

lemma report_template_not_error: "report_template q \<noteq> query_error_text"
  by (simp add: report_template_def query_error_text_def lit_def)

lemma empty_not_error: "query_error_text \<noteq> []"
  by (simp add: query_error_text_def lit_def)


section \<open>What an event does\<close>

text \<open>
  An event starts an upload, starts a query, or starts nothing and leaves the busy flags,
  the upload outcome and the report alone.
\<close>

lemma dispatch_cases:
  assumes "dispatch e s = (s', t)"
  obtains
    (upload) f where "e = UploadClick" "file' s = Some f" "\<not> isUploading s"
      "s' = s\<lparr>isUploading := True, uploadStatus := None\<rparr>" "t = Some (delay 2000 (UploadAwait f))"
  | (ask) "e = AskClick \<or> e = QuestionKeyPress (lit ''Enter'')" "truthy (trim (question s))"
      "\<not> isAsking s" "s' = s\<lparr>isAsking := True\<rparr>" "t = Some (delay 3000 (AskAwait (question s)))"
  | (other) "t = None" "isUploading s' = isUploading s" "isAsking s' = isAsking s"
      "uploadStatus s' = uploadStatus s" "report s' = report s"
proof (cases e)
  case UploadClick
  with assms show ?thesis
    by (cases "file' s"; cases "isUploading s") (auto simp: handlers setters intro: upload other)
next
  case AskClick
  with assms show ?thesis
    by (cases "isAsking s"; cases "truthy (trim (question s))")
       (auto simp: handlers setters intro: ask other)
next
  case (QuestionKeyPress key)
  with assms show ?thesis
    by (cases "isAsking s"; cases "truthy (trim (question s))"; cases "key = lit ''Enter''")
       (auto simp: handlers setters intro: ask other)
next
  case (Drop fs)
  with assms show ?thesis
    by (cases fs) (auto simp: handlers setters split: if_splits intro: other)
qed (use assms in \<open>auto simp: handlers setters split: if_splits intro: other\<close>)


lemma handler_uploadStatus:
  "e \<noteq> UploadClick \<Longrightarrow> uploadStatus (fst (dispatch e s)) = uploadStatus s"
  by (cases e)
     (auto simp: dispatch_def handleDragOver_def handleDragLeave_def handleDrop_def Let_def
        fileInput_onChange_def questionInput_onChange_def questionInput_onKeyPress_def
        askQuestion_def setters split: option.splits)

lemma upload_click_status:
  "uploadStatus (fst (dispatch UploadClick s)) \<noteq> uploadStatus s \<Longrightarrow>
   uploadStatus (fst (dispatch UploadClick s)) = None"
  by (auto simp: dispatch_def uploadFile_def setters split: option.splits if_splits)

lemma dispatch_file_kept:
  assumes "file' s \<noteq> None" and "e \<noteq> FileInputChange []"
  shows "file' (fst (dispatch e s)) \<noteq> None"
proof (cases e)
  case (FileInputChange fs)
  with assms(2) obtain f fs' where "fs = f # fs'"
    by (cases fs) auto
  with FileInputChange show ?thesis
    using assms(1) by (simp add: dispatch_def fileInput_onChange_def setters)
next
  case (Drop fs)
  with assms(1) show ?thesis
    by (cases fs) (simp_all add: dispatch_def handleDrop_def Let_def setters)
qed (use assms(1) in \<open>auto simp: dispatch_def handleDragOver_def handleDragLeave_def
        questionInput_onChange_def questionInput_onKeyPress_def askQuestion_def uploadFile_def
        setters\<close>)

lemma selected_file_kept:
  assumes "file' (ui \<sigma>) \<noteq> None" and "a \<noteq> User (FileInputChange [])"
  shows "file' (ui (sys_step a \<sigma>)) \<noteq> None"
proof (cases a)
  case (User e)
  with assms show ?thesis
    using dispatch_file_kept [of "ui \<sigma>" e]
    by (auto simp: schedule_ui split: prod.splits)
next
  case (Fire i)
  with assms show ?thesis
    by (auto simp: resume_def askQuestion_resume_def uploadFile_resume_def setters
        split: option.splits awaiter.splits settled.splits)
qed

lemma upload_started:
  assumes "file' (ui \<sigma>) = Some f" and "\<not> isUploading (ui \<sigma>)"
  shows "timers (sys_step (User UploadClick) \<sigma>) (next_id \<sigma>) = Some (delay 2000 (UploadAwait f))"
  using assms by (simp add: dispatch_def uploadFile_def)

lemma ask_started:
  assumes "truthy (trim (question (ui \<sigma>)))" and "\<not> isAsking (ui \<sigma>)"
    and "e = AskClick \<or> e = QuestionKeyPress (lit ''Enter'')"
  shows "timers (sys_step (User e) \<sigma>) (next_id \<sigma>) =
           Some (delay 3000 (AskAwait (question (ui \<sigma>))))"
  using assms by (auto simp: dispatch_def askQuestion_def questionInput_onKeyPress_def)

lemma dispatch_timer_resolves:
  "map_option (\<lambda>t. settle (callback t)) (snd (dispatch e s)) \<noteq> Some Rejected"
proof -
  obtain s' t where d: "dispatch e s = (s', t)"
    by (cases "dispatch e s")
  from d have "map_option (\<lambda>t. settle (callback t)) t \<noteq> Some Rejected"
    by (cases rule: dispatch_cases) (simp_all add: delay_def)
  with d show ?thesis
    by simp
qed


section \<open>Invariants of the running component\<close>

lemma busy_inv_initial: "busy_inv initial_sys"
  by (simp add: busy_inv_def initial_sys_def initial_state_def upload_timer_def ask_timer_def)

lemma busy_invI:
  assumes "\<And>i. next_id \<sigma> \<le> i \<Longrightarrow> timers \<sigma> i = None"
    and "isUploading (ui \<sigma>) \<longleftrightarrow> (\<exists>i. upload_timer \<sigma> i)"
    and "\<And>i j. upload_timer \<sigma> i \<Longrightarrow> upload_timer \<sigma> j \<Longrightarrow> i = j"
    and "isAsking (ui \<sigma>) \<longleftrightarrow> (\<exists>i. ask_timer \<sigma> i)"
    and "\<And>i j. ask_timer \<sigma> i \<Longrightarrow> ask_timer \<sigma> j \<Longrightarrow> i = j"
  shows "busy_inv \<sigma>"
  using assms unfolding busy_inv_def by blast

lemma busy_invD:
  assumes "busy_inv \<sigma>"
  shows "next_id \<sigma> \<le> i \<Longrightarrow> timers \<sigma> i = None"
    and "isUploading (ui \<sigma>) \<longleftrightarrow> (\<exists>i. upload_timer \<sigma> i)"
    and "upload_timer \<sigma> i \<Longrightarrow> upload_timer \<sigma> j \<Longrightarrow> i = j"
    and "isAsking (ui \<sigma>) \<longleftrightarrow> (\<exists>i. ask_timer \<sigma> i)"
    and "ask_timer \<sigma> i \<Longrightarrow> ask_timer \<sigma> j \<Longrightarrow> i = j"
  using assms unfolding busy_inv_def by blast+

lemma fresh_not_timer:
  assumes "busy_inv \<sigma>"
  shows "\<not> upload_timer \<sigma> (next_id \<sigma>)" and "\<not> ask_timer \<sigma> (next_id \<sigma>)"
  using busy_invD(1) [OF assms, of "next_id \<sigma>"]
  by (simp_all add: upload_timer_def ask_timer_def)

lemma busy_inv_user:
  assumes inv: "busy_inv \<sigma>"
  shows "busy_inv (sys_step (User e) \<sigma>)"
proof -
  obtain s' t where d: "dispatch e (ui \<sigma>) = (s', t)"
    by (cases "dispatch e (ui \<sigma>)")
  define \<sigma>' where "\<sigma>' = sys_step (User e) \<sigma>"
  from d have step: "\<sigma>' = schedule t (\<sigma>\<lparr>ui := s'\<rparr>)"
    by (simp add: \<sigma>'_def)
  have "busy_inv \<sigma>'"
    using d
  proof (cases rule: dispatch_cases)
    case (upload f)
    with step have ui: "ui \<sigma>' = s'"
      and tm: "timers \<sigma>' = (timers \<sigma>)(next_id \<sigma> \<mapsto> delay 2000 (UploadAwait f))"
      and nx: "next_id \<sigma>' = Suc (next_id \<sigma>)"
      by simp_all
    from upload inv have none: "\<And>i. \<not> upload_timer \<sigma> i"
      using busy_invD(2) [OF inv] by simp
    have u': "\<And>j. upload_timer \<sigma>' j \<longleftrightarrow> j = next_id \<sigma>"
      using none by (simp add: upload_timer_def tm delay_def)
    have a': "\<And>j. ask_timer \<sigma>' j \<longleftrightarrow> ask_timer \<sigma> j"
      using fresh_not_timer(2) [OF inv] by (simp add: ask_timer_def tm delay_def)
    show ?thesis
    proof (rule busy_invI)
      show "timers \<sigma>' i = None" if "next_id \<sigma>' \<le> i" for i
        using that busy_invD(1) [OF inv, of i] by (simp add: tm nx)
      show "isUploading (ui \<sigma>') \<longleftrightarrow> (\<exists>i. upload_timer \<sigma>' i)"
        using upload by (simp add: ui u')
      show "i = j" if "upload_timer \<sigma>' i" "upload_timer \<sigma>' j" for i j
        using that by (simp add: u')
      show "isAsking (ui \<sigma>') \<longleftrightarrow> (\<exists>i. ask_timer \<sigma>' i)"
        using upload busy_invD(4) [OF inv] by (simp add: ui a')
      show "i = j" if "ask_timer \<sigma>' i" "ask_timer \<sigma>' j" for i j
        using that busy_invD(5) [OF inv] by (simp add: a')
    qed
  next
    case ask
    with step have ui: "ui \<sigma>' = s'"
      and tm: "timers \<sigma>' = (timers \<sigma>)(next_id \<sigma> \<mapsto> delay 3000 (AskAwait (question (ui \<sigma>))))"
      and nx: "next_id \<sigma>' = Suc (next_id \<sigma>)"
      by simp_all
    from ask inv have none: "\<And>i. \<not> ask_timer \<sigma> i"
      using busy_invD(4) [OF inv] by simp
    have a': "\<And>j. ask_timer \<sigma>' j \<longleftrightarrow> j = next_id \<sigma>"
      using none by (simp add: ask_timer_def tm delay_def)
    have u': "\<And>j. upload_timer \<sigma>' j \<longleftrightarrow> upload_timer \<sigma> j"
      using fresh_not_timer(1) [OF inv] by (simp add: upload_timer_def tm delay_def)
    show ?thesis
    proof (rule busy_invI)
      show "timers \<sigma>' i = None" if "next_id \<sigma>' \<le> i" for i
        using that busy_invD(1) [OF inv, of i] by (simp add: tm nx)
      show "isAsking (ui \<sigma>') \<longleftrightarrow> (\<exists>i. ask_timer \<sigma>' i)"
        using ask by (simp add: ui a')
      show "i = j" if "ask_timer \<sigma>' i" "ask_timer \<sigma>' j" for i j
        using that by (simp add: a')
      show "isUploading (ui \<sigma>') \<longleftrightarrow> (\<exists>i. upload_timer \<sigma>' i)"
        using ask busy_invD(2) [OF inv] by (simp add: ui u')
      show "i = j" if "upload_timer \<sigma>' i" "upload_timer \<sigma>' j" for i j
        using that busy_invD(3) [OF inv] by (simp add: u')
    qed
  next
    case other
    with step have ui: "ui \<sigma>' = s'" and tm: "timers \<sigma>' = timers \<sigma>"
      and nx: "next_id \<sigma>' = next_id \<sigma>"
      by simp_all
    have u': "\<And>j. upload_timer \<sigma>' j \<longleftrightarrow> upload_timer \<sigma> j"
      and a': "\<And>j. ask_timer \<sigma>' j \<longleftrightarrow> ask_timer \<sigma> j"
      by (simp_all add: upload_timer_def ask_timer_def tm)
    from inv other show ?thesis
      unfolding busy_inv_def u' a' ui tm nx by simp
  qed
  then show ?thesis
    by (simp only: \<sigma>'_def)
qed

lemma busy_inv_fire:
  assumes inv: "busy_inv \<sigma>"
  shows "busy_inv (sys_step (Fire i) \<sigma>)"
proof (cases "timers \<sigma> i")
  case None
  with inv show ?thesis by simp
next
  case (Some t)
  define \<sigma>' where "\<sigma>' = sys_step (Fire i) \<sigma>"
  from Some have ui: "ui \<sigma>' = resume t (ui \<sigma>)"
    and tm: "timers \<sigma>' = (timers \<sigma>)(i := None)"
    and nx: "next_id \<sigma>' = next_id \<sigma>"
    by (simp_all add: \<sigma>'_def)
  have "busy_inv \<sigma>'"
  proof (cases "awaiter t")
    case (UploadAwait f)
    with Some have "upload_timer \<sigma> i"
      by (simp add: upload_timer_def)
    then have only: "\<And>j. upload_timer \<sigma> j \<longleftrightarrow> j = i"
      using busy_invD(3) [OF inv] by blast
    have u': "\<And>j. \<not> upload_timer \<sigma>' j"
      using only by (simp add: upload_timer_def tm)
    have a': "\<And>j. ask_timer \<sigma>' j \<longleftrightarrow> ask_timer \<sigma> j"
      using Some UploadAwait by (simp add: ask_timer_def tm)
    have flags: "\<not> isUploading (ui \<sigma>')" "isAsking (ui \<sigma>') = isAsking (ui \<sigma>)"
      using UploadAwait
      by (simp_all add: ui resume_def uploadFile_resume_def setters split: settled.splits)
    show ?thesis
    proof (rule busy_invI)
      show "timers \<sigma>' j = None" if "next_id \<sigma>' \<le> j" for j
        using that busy_invD(1) [OF inv, of j] by (simp add: tm nx)
      show "isUploading (ui \<sigma>') \<longleftrightarrow> (\<exists>j. upload_timer \<sigma>' j)"
        by (simp add: flags u')
      show "j = k" if "upload_timer \<sigma>' j" "upload_timer \<sigma>' k" for j k
        using that by (simp add: u')
      show "isAsking (ui \<sigma>') \<longleftrightarrow> (\<exists>j. ask_timer \<sigma>' j)"
        using busy_invD(4) [OF inv] by (simp add: flags a')
      show "j = k" if "ask_timer \<sigma>' j" "ask_timer \<sigma>' k" for j k
        using that busy_invD(5) [OF inv] by (simp add: a')
    qed
  next
    case (AskAwait q)
    with Some have "ask_timer \<sigma> i"
      by (simp add: ask_timer_def)
    then have only: "\<And>j. ask_timer \<sigma> j \<longleftrightarrow> j = i"
      using busy_invD(5) [OF inv] by blast
    have a': "\<And>j. \<not> ask_timer \<sigma>' j"
      using only by (simp add: ask_timer_def tm)
    have u': "\<And>j. upload_timer \<sigma>' j \<longleftrightarrow> upload_timer \<sigma> j"
      using Some AskAwait by (simp add: upload_timer_def tm)
    have flags: "\<not> isAsking (ui \<sigma>')" "isUploading (ui \<sigma>') = isUploading (ui \<sigma>)"
      using AskAwait
      by (simp_all add: ui resume_def askQuestion_resume_def setters split: settled.splits)
    show ?thesis
    proof (rule busy_invI)
      show "timers \<sigma>' j = None" if "next_id \<sigma>' \<le> j" for j
        using that busy_invD(1) [OF inv, of j] by (simp add: tm nx)
      show "isAsking (ui \<sigma>') \<longleftrightarrow> (\<exists>j. ask_timer \<sigma>' j)"
        by (simp add: flags a')
      show "j = k" if "ask_timer \<sigma>' j" "ask_timer \<sigma>' k" for j k
        using that by (simp add: a')
      show "isUploading (ui \<sigma>') \<longleftrightarrow> (\<exists>j. upload_timer \<sigma>' j)"
        using busy_invD(2) [OF inv] by (simp add: flags u')
      show "j = k" if "upload_timer \<sigma>' j" "upload_timer \<sigma>' k" for j k
        using that busy_invD(3) [OF inv] by (simp add: u')
    qed
  qed
  then show ?thesis
    by (simp only: \<sigma>'_def)
qed

lemma busy_inv_step: "busy_inv \<sigma> \<Longrightarrow> busy_inv (sys_step a \<sigma>)"
  by (cases a) (simp_all only: busy_inv_user busy_inv_fire)

lemma busy_inv_run: "busy_inv \<sigma> \<Longrightarrow> busy_inv (run acts \<sigma>)"
  by (induction acts arbitrary: \<sigma>) (simp_all add: run_Nil run_Cons busy_inv_step)

lemma busy_inv_reachable: "busy_inv (run acts initial_sys)"
  by (rule busy_inv_run [OF busy_inv_initial])


lemma timer_persists_step:
  assumes "busy_inv \<sigma>" and "timers \<sigma> k = Some t0" and "a \<noteq> Fire k"
  shows "timers (sys_step a \<sigma>) k = Some t0"
proof (cases a)
  case (User e)
  obtain s' t where d: "dispatch e (ui \<sigma>) = (s', t)"
    by (cases "dispatch e (ui \<sigma>)")
  from busy_invD(1) [OF assms(1), of k] assms(2) have "k \<noteq> next_id \<sigma>"
    by auto
  with assms(2) d User show ?thesis
    by (cases t) simp_all
next
  case (Fire i)
  with assms show ?thesis
    by (cases "timers \<sigma> i") auto
qed

lemma timer_persists_run:
  assumes "busy_inv \<sigma>" and "timers \<sigma> k = Some t0" and "Fire k \<notin> set acts"
  shows "timers (run acts \<sigma>) k = Some t0"
  using assms
proof (induction acts arbitrary: \<sigma>)
  case Nil
  then show ?case by (simp add: run_Nil)
next
  case (Cons a acts)
  from Cons.prems have "a \<noteq> Fire k" and rest: "Fire k \<notin> set acts"
    by auto
  with Cons.prems have "timers (sys_step a \<sigma>) k = Some t0"
    by (simp add: timer_persists_step)
  with Cons.IH [OF busy_inv_step [OF Cons.prems(1)] _ rest] show ?case
    by (simp add: run_Cons)
qed

lemma pending_upload_busy:
  assumes "busy_inv \<sigma>" and "timers \<sigma> k = Some (delay d (UploadAwait f))"
  shows "isUploading (ui \<sigma>)"
proof -
  from assms(2) have "upload_timer \<sigma> k"
    by (simp add: upload_timer_def delay_def)
  with busy_invD(2) [OF assms(1)] show ?thesis
    by blast
qed

lemma pending_ask_busy:
  assumes "busy_inv \<sigma>" and "timers \<sigma> k = Some (delay d (AskAwait q))"
  shows "isAsking (ui \<sigma>)"
proof -
  from assms(2) have "ask_timer \<sigma> k"
    by (simp add: ask_timer_def delay_def)
  with busy_invD(4) [OF assms(1)] show ?thesis
    by blast
qed

text \<open>Nothing but the completion of an operation clears its busy flag.\<close>

lemma uploading_kept:
  assumes "isUploading (ui \<sigma>)" and "\<not> completes_upload a \<sigma>"
  shows "isUploading (ui (sys_step a \<sigma>))"
proof (cases a)
  case (User e)
  obtain s' t where d: "dispatch e (ui \<sigma>) = (s', t)"
    by (cases "dispatch e (ui \<sigma>)")
  from d assms(1) have "isUploading s'"
    by (cases rule: dispatch_cases) simp_all
  with d User show ?thesis
    by (simp add: schedule_ui)
next
  case (Fire i)
  with assms show ?thesis
    by (auto simp: completes_upload_def upload_timer_def resume_def askQuestion_resume_def
        setters split: option.splits awaiter.splits settled.splits)
qed

lemma asking_kept:
  assumes "isAsking (ui \<sigma>)" and "\<not> completes_query a \<sigma>"
  shows "isAsking (ui (sys_step a \<sigma>))"
proof (cases a)
  case (User e)
  obtain s' t where d: "dispatch e (ui \<sigma>) = (s', t)"
    by (cases "dispatch e (ui \<sigma>)")
  from d assms(1) have "isAsking s'"
    by (cases rule: dispatch_cases) simp_all
  with d User show ?thesis
    by (simp add: schedule_ui)
next
  case (Fire i)
  with assms show ?thesis
    by (auto simp: completes_query_def ask_timer_def resume_def uploadFile_resume_def
        setters split: option.splits awaiter.splits settled.splits)
qed

lemma ok_inv_initial: "ok_inv initial_sys"
  by (simp add: ok_inv_def initial_sys_def initial_state_def)

lemma ok_inv_step:
  assumes inv: "ok_inv \<sigma>"
  shows "ok_inv (sys_step a \<sigma>)"
proof (cases a)
  case (User e)
  obtain s' t where d: "dispatch e (ui \<sigma>) = (s', t)"
    by (cases "dispatch e (ui \<sigma>)")
  from d have "ok_inv (schedule t (\<sigma>\<lparr>ui := s'\<rparr>))"
  proof (cases rule: dispatch_cases)
    case (upload f)
    with inv show ?thesis
      by (simp add: ok_inv_def delay_def)
  next
    case ask
    with inv show ?thesis
      by (simp add: ok_inv_def delay_def)
  next
    case other
    with inv show ?thesis
      by (simp add: ok_inv_def)
  qed
  with d User show ?thesis
    by simp
next
  case (Fire i)
  show ?thesis
  proof (cases "timers \<sigma> i")
    case None
    with inv Fire show ?thesis by simp
  next
    case (Some t)
    with inv have "callback t = Resolve"
      by (simp add: ok_inv_def)
    with inv Some Fire show ?thesis
      by (cases "awaiter t")
         (auto simp: ok_inv_def resume_def uploadFile_resume_def askQuestion_resume_def setters)
  qed
qed

lemma ok_inv_run: "ok_inv \<sigma> \<Longrightarrow> ok_inv (run acts \<sigma>)"
  by (induction acts arbitrary: \<sigma>) (simp_all add: run_Nil run_Cons ok_inv_step)


section \<open>Sample runs\<close>

lemma sample_pre: "run file_chosen initial_sys =
   \<lparr>ui = initial_state\<lparr>file' := Some pdf_file\<rparr>, timers = Map.empty, next_id = 0\<rparr>"
  by (simp add: file_chosen_def eval_defs)

lemma sample_typed: "run question_typed initial_sys =
   \<lparr>ui = initial_state\<lparr>question := sample_question\<rparr>, timers = Map.empty, next_id = 0\<rparr>"
  by (simp add: question_typed_def eval_defs)

lemma sample_question_not_blank:
  "sample_question \<noteq> [] \<and> \<not> list_all isWhiteSpace sample_question"
  by (simp add: sample_question_def lit_def isWhiteSpace_def)


section \<open>C1: the upload simulation\<close>

text \<open>
  C1. In every state with a selected file \<open>f\<close>, invoking the upload operation sets the
  uploading flag and starts the fixed delay of 2000 ms, whose timer calls \<^verbatim>\<open>resolve\<close>.
  While the delay runs the flag stays set: no action but the completion of an upload clears
  it, and in a run of the component, from the click on the enabled upload button until the
  timer of this upload fires, the flag is set and the timer is pending, whatever else happens
  in between. When the timer fires, the outcome becomes a success whose message is
  \<open>PDF uploaded: \<close> followed by the name of \<open>f\<close>, so it contains that name, and the
  uploading flag is cleared after the outcome is written.
\<close>

theorem upload_lifecycle:
  assumes "file' s = Some f"
  shows "uploadFile s =
           (s\<lparr>isUploading := True, uploadStatus := None\<rparr>,
            Some \<lparr>ms = 2000, callback = Resolve, awaiter = UploadAwait f\<rparr>) \<and>
         (isUploading (ui \<sigma>) \<and> \<not> completes_upload a \<sigma> \<longrightarrow> isUploading (ui (sys_step a \<sigma>))) \<and>
         (ui (run pre initial_sys) = s \<and> \<not> isUploading s \<and>
          Fire (next_id (run pre initial_sys)) \<notin> set acts \<longrightarrow>
            isUploading (ui (run acts (sys_step (User UploadClick) (run pre initial_sys)))) \<and>
            timers (run acts (sys_step (User UploadClick) (run pre initial_sys)))
              (next_id (run pre initial_sys)) = Some (delay 2000 (UploadAwait f)) \<and>
            ui (run (acts @ [Fire (next_id (run pre initial_sys))])
                 (sys_step (User UploadClick) (run pre initial_sys))) =
              resume (delay 2000 (UploadAwait f))
                (ui (run acts (sys_step (User UploadClick) (run pre initial_sys))))) \<and>
         resume (delay 2000 (UploadAwait f)) s' =
           s'\<lparr>uploadStatus :=
                Some \<lparr>status_type = Success, message = lit ''PDF uploaded: '' @ name f\<rparr>,
              isUploading := False\<rparr> \<and>
         sublist (name f) (lit ''PDF uploaded: '' @ name f)"
proof -
  have start: "uploadFile s =
      (s\<lparr>isUploading := True, uploadStatus := None\<rparr>,
       Some \<lparr>ms = 2000, callback = Resolve, awaiter = UploadAwait f\<rparr>)"
    using assms by (simp add: uploadFile_def delay_def setters)
  have window: "isUploading (ui (run acts (sys_step (User UploadClick) (run pre initial_sys)))) \<and>
      timers (run acts (sys_step (User UploadClick) (run pre initial_sys)))
        (next_id (run pre initial_sys)) = Some (delay 2000 (UploadAwait f)) \<and>
      ui (run (acts @ [Fire (next_id (run pre initial_sys))])
           (sys_step (User UploadClick) (run pre initial_sys))) =
        resume (delay 2000 (UploadAwait f))
          (ui (run acts (sys_step (User UploadClick) (run pre initial_sys))))"
    if "ui (run pre initial_sys) = s" and "\<not> isUploading s"
      and "Fire (next_id (run pre initial_sys)) \<notin> set acts"
  proof -
    define \<sigma>0 where "\<sigma>0 = run pre initial_sys"
    define \<sigma>1 where "\<sigma>1 = sys_step (User UploadClick) \<sigma>0"
    have inv1: "busy_inv \<sigma>1"
      unfolding \<sigma>1_def \<sigma>0_def by (intro busy_inv_step busy_inv_reachable)
    have "timers \<sigma>1 (next_id \<sigma>0) = Some (delay 2000 (UploadAwait f))"
      unfolding \<sigma>1_def using assms that(1,2) by (intro upload_started) (simp_all add: \<sigma>0_def)
    with inv1 that(3) have pending:
      "timers (run acts \<sigma>1) (next_id \<sigma>0) = Some (delay 2000 (UploadAwait f))"
      by (intro timer_persists_run) (simp_all add: \<sigma>0_def)
    moreover have "busy_inv (run acts \<sigma>1)"
      using inv1 by (rule busy_inv_run)
    ultimately have "isUploading (ui (run acts \<sigma>1))"
      by (intro pending_upload_busy)
    moreover from pending have "ui (run (acts @ [Fire (next_id \<sigma>0)]) \<sigma>1) =
        resume (delay 2000 (UploadAwait f)) (ui (run acts \<sigma>1))"
      by (simp add: run_append run_Cons run_Nil)
    ultimately show ?thesis
      using pending by (simp add: \<sigma>1_def \<sigma>0_def)
  qed
  then have win: "ui (run pre initial_sys) = s \<and> \<not> isUploading s \<and>
      Fire (next_id (run pre initial_sys)) \<notin> set acts \<longrightarrow>
        isUploading (ui (run acts (sys_step (User UploadClick) (run pre initial_sys)))) \<and>
        timers (run acts (sys_step (User UploadClick) (run pre initial_sys)))
          (next_id (run pre initial_sys)) = Some (delay 2000 (UploadAwait f)) \<and>
        ui (run (acts @ [Fire (next_id (run pre initial_sys))])
             (sys_step (User UploadClick) (run pre initial_sys))) =
          resume (delay 2000 (UploadAwait f))
            (ui (run acts (sys_step (User UploadClick) (run pre initial_sys))))"
    by blast
  have kept: "isUploading (ui \<sigma>) \<and> \<not> completes_upload a \<sigma> \<longrightarrow> isUploading (ui (sys_step a \<sigma>))"
    using uploading_kept by blast
  have sub: "sublist (name f) (lit ''PDF uploaded: '' @ name f)"
    by (rule sublist_append_leftI)
  from start kept win resume_upload [of 2000 f s'] sub show ?thesis
    by (intro conjI) assumption+
qed

theorem upload_lifecycle_witness:
  "file' (ui (run file_chosen initial_sys)) = Some pdf_file \<and>
   \<not> isUploading (ui (run file_chosen initial_sys)) \<and>
   Fire (next_id (run file_chosen initial_sys)) \<notin> set during_upload \<and>
   isUploading (ui (run during_upload (sys_step (User UploadClick) (run file_chosen initial_sys)))) \<and>
   uploadStatus (ui (run during_upload (sys_step (User UploadClick) (run file_chosen initial_sys)))) = None \<and>
   uploadStatus (ui (run (during_upload @ [Fire 0])
                    (sys_step (User UploadClick) (run file_chosen initial_sys)))) =
     Some \<lparr>status_type = Success, message = lit ''PDF uploaded: paper.pdf''\<rparr> \<and>
   \<not> isUploading (ui (run (during_upload @ [Fire 0])
                    (sys_step (User UploadClick) (run file_chosen initial_sys)))) \<and>
   sublist (lit ''paper.pdf'') (lit ''PDF uploaded: paper.pdf'')"
  using upload_lifecycle [of "ui (run file_chosen initial_sys)" pdf_file
      "sys_step (User UploadClick) (run file_chosen initial_sys)" "User DragOver"
      file_chosen during_upload
      "ui (run during_upload (sys_step (User UploadClick) (run file_chosen initial_sys)))"]
  apply (simp only: sample_pre)
  apply (simp add: during_upload_def pdf_file_def text_file_def sample_question_def eval_defs lit_def)
  done


section \<open>C2: the query simulation\<close>

text \<open>
  C2. In every state whose question text is neither empty nor whitespace only, invoking the
  query operation sets the asking flag and starts the fixed delay of 3000 ms. While the
  delay runs the flag stays set: no action but the completion of a query clears it, and in a
  run of the component, from the click on the enabled ask button (or Enter in the enabled
  text input) until the timer of this query fires, the flag is set and the timer is pending.
  When the timer fires, the report becomes the template instantiated with the question as
  it was submitted, which contains that question verbatim, and the asking flag is cleared
  after the report is written.
\<close>

theorem query_lifecycle:
  assumes "question s \<noteq> []" and "\<not> list_all isWhiteSpace (question s)"
  shows "askQuestion s =
           (s\<lparr>isAsking := True\<rparr>,
            Some \<lparr>ms = 3000, callback = Resolve, awaiter = AskAwait (question s)\<rparr>) \<and>
         (isAsking (ui \<sigma>) \<and> \<not> completes_query a \<sigma> \<longrightarrow> isAsking (ui (sys_step a \<sigma>))) \<and>
         (ui (run pre initial_sys) = s \<and> \<not> isAsking s \<and>
          (e = AskClick \<or> e = QuestionKeyPress (lit ''Enter'')) \<and>
          Fire (next_id (run pre initial_sys)) \<notin> set acts \<longrightarrow>
            isAsking (ui (run acts (sys_step (User e) (run pre initial_sys)))) \<and>
            timers (run acts (sys_step (User e) (run pre initial_sys)))
              (next_id (run pre initial_sys)) = Some (delay 3000 (AskAwait (question s))) \<and>
            ui (run (acts @ [Fire (next_id (run pre initial_sys))])
                 (sys_step (User e) (run pre initial_sys))) =
              resume (delay 3000 (AskAwait (question s)))
                (ui (run acts (sys_step (User e) (run pre initial_sys))))) \<and>
         resume (delay 3000 (AskAwait (question s))) s' =
           s'\<lparr>report := report_template (question s), isAsking := False\<rparr> \<and>
         sublist (question s) (report_template (question s))"
proof -
  have nb: "truthy (trim (question s))"
    using assms(2) by (rule not_blank)
  then have start: "askQuestion s =
      (s\<lparr>isAsking := True\<rparr>,
       Some \<lparr>ms = 3000, callback = Resolve, awaiter = AskAwait (question s)\<rparr>)"
    by (simp add: askQuestion_def delay_def setters)
  have window: "isAsking (ui (run acts (sys_step (User e) (run pre initial_sys)))) \<and>
      timers (run acts (sys_step (User e) (run pre initial_sys)))
        (next_id (run pre initial_sys)) = Some (delay 3000 (AskAwait (question s))) \<and>
      ui (run (acts @ [Fire (next_id (run pre initial_sys))])
           (sys_step (User e) (run pre initial_sys))) =
        resume (delay 3000 (AskAwait (question s)))
          (ui (run acts (sys_step (User e) (run pre initial_sys))))"
    if "ui (run pre initial_sys) = s" and "\<not> isAsking s"
      and "e = AskClick \<or> e = QuestionKeyPress (lit ''Enter'')"
      and "Fire (next_id (run pre initial_sys)) \<notin> set acts"
  proof -
    define \<sigma>0 where "\<sigma>0 = run pre initial_sys"
    define \<sigma>1 where "\<sigma>1 = sys_step (User e) \<sigma>0"
    have inv1: "busy_inv \<sigma>1"
      unfolding \<sigma>1_def \<sigma>0_def by (intro busy_inv_step busy_inv_reachable)
    have "timers \<sigma>1 (next_id \<sigma>0) = Some (delay 3000 (AskAwait (question (ui \<sigma>0))))"
      unfolding \<sigma>1_def using nb that(1,2,3) by (intro ask_started) (simp_all add: \<sigma>0_def)
    then have "timers \<sigma>1 (next_id \<sigma>0) = Some (delay 3000 (AskAwait (question s)))"
      using that(1) by (simp add: \<sigma>0_def)
    with inv1 that(4) have pending:
      "timers (run acts \<sigma>1) (next_id \<sigma>0) = Some (delay 3000 (AskAwait (question s)))"
      by (intro timer_persists_run) (simp_all add: \<sigma>0_def)
    moreover have "busy_inv (run acts \<sigma>1)"
      using inv1 by (rule busy_inv_run)
    ultimately have "isAsking (ui (run acts \<sigma>1))"
      by (intro pending_ask_busy)
    moreover from pending have "ui (run (acts @ [Fire (next_id \<sigma>0)]) \<sigma>1) =
        resume (delay 3000 (AskAwait (question s))) (ui (run acts \<sigma>1))"
      by (simp add: run_append run_Cons run_Nil)
    ultimately show ?thesis
      using pending by (simp add: \<sigma>1_def \<sigma>0_def)
  qed
  then have win: "ui (run pre initial_sys) = s \<and> \<not> isAsking s \<and>
      (e = AskClick \<or> e = QuestionKeyPress (lit ''Enter'')) \<and>
      Fire (next_id (run pre initial_sys)) \<notin> set acts \<longrightarrow>
        isAsking (ui (run acts (sys_step (User e) (run pre initial_sys)))) \<and>
        timers (run acts (sys_step (User e) (run pre initial_sys)))
          (next_id (run pre initial_sys)) = Some (delay 3000 (AskAwait (question s))) \<and>
        ui (run (acts @ [Fire (next_id (run pre initial_sys))])
             (sys_step (User e) (run pre initial_sys))) =
          resume (delay 3000 (AskAwait (question s)))
            (ui (run acts (sys_step (User e) (run pre initial_sys))))"
    by blast
  have kept: "isAsking (ui \<sigma>) \<and> \<not> completes_query a \<sigma> \<longrightarrow> isAsking (ui (sys_step a \<sigma>))"
    using asking_kept by blast
  from start kept win resume_ask [of 3000 "question s" s'] question_in_report [of "question s"]
  show ?thesis
    by (intro conjI) assumption+
qed

theorem query_lifecycle_witness:
  "question (ui (run question_typed initial_sys)) \<noteq> [] \<and>
   \<not> list_all isWhiteSpace (question (ui (run question_typed initial_sys))) \<and>
   \<not> isAsking (ui (run question_typed initial_sys)) \<and>
   Fire (next_id (run question_typed initial_sys)) \<notin> set during_query \<and>
   isAsking (ui (run during_query (sys_step (User AskClick) (run question_typed initial_sys)))) \<and>
   report (ui (run during_query (sys_step (User AskClick) (run question_typed initial_sys)))) = [] \<and>
   report (ui (run (during_query @ [Fire 0])
               (sys_step (User AskClick) (run question_typed initial_sys)))) =
     report_template sample_question \<and>
   \<not> isAsking (ui (run (during_query @ [Fire 0])
                   (sys_step (User AskClick) (run question_typed initial_sys)))) \<and>
   sublist sample_question (report_template sample_question)"
  using query_lifecycle [of "ui (run question_typed initial_sys)"
      "sys_step (User AskClick) (run question_typed initial_sys)" "User DragOver"
      question_typed AskClick during_query
      "ui (run during_query (sys_step (User AskClick) (run question_typed initial_sys)))"]
    sample_question_not_blank
  apply (simp only: sample_typed)
  apply (simp add: during_query_def pdf_file_def eval_defs lit_def sample_question_def)
  done


section \<open>C3: upload without a file\<close>

text \<open>
  C3. In a state with no selected file, invoking the upload operation changes nothing: the
  handler returns the state it was given, field for field, and starts no timer; the same
  holds for a click on the upload button, and for the component with its timers.
\<close>

theorem upload_without_file_noop:
  assumes "file' s = None" and "ui \<sigma> = s"
  shows "uploadFile s = (s, None) \<and> dispatch UploadClick s = (s, None) \<and>
         sys_step (User UploadClick) \<sigma> = \<sigma>"
  using assms by (simp add: uploadFile_def dispatch_def)

theorem upload_without_file_noop_witness:
  "file' initial_state = None \<and> ui initial_sys = initial_state \<and>
   uploadFile initial_state = (initial_state, None) \<and>
   dispatch UploadClick initial_state = (initial_state, None) \<and>
   sys_step (User UploadClick) initial_sys = initial_sys"
  using upload_without_file_noop [of initial_state initial_sys]
  by (simp add: initial_state_def initial_sys_def)


section \<open>C4: query without a question\<close>

text \<open>
  C4. In a state whose question text is empty or consists only of whitespace, invoking the
  query operation changes nothing: the handler returns the state it was given, field for
  field, and starts no timer; the same holds for a click on the ask button and for any key
  pressed in the text input (Enter included), and for the component with its timers.
\<close>

theorem query_blank_noop:
  assumes "question s = [] \<or> list_all isWhiteSpace (question s)" and "ui \<sigma> = s"
  shows "askQuestion s = (s, None) \<and> dispatch AskClick s = (s, None) \<and>
         dispatch (QuestionKeyPress key) s = (s, None) \<and>
         sys_step (User AskClick) \<sigma> = \<sigma> \<and> sys_step (User (QuestionKeyPress key)) \<sigma> = \<sigma>"
proof -
  from assms(1) have "\<forall>c \<in> set (question s). isWhiteSpace c"
    by (auto simp: list_all_iff)
  then have blank: "\<not> truthy (trim (question s))"
    by (simp only: blank_iff)
  then have ask: "askQuestion s = (s, None)"
    by (simp add: askQuestion_def)
  have key: "dispatch (QuestionKeyPress key) s = (s, None)"
    by (simp add: dispatch_def questionInput_onKeyPress_def ask)
  have click: "dispatch AskClick s = (s, None)"
    by (simp add: dispatch_def ask)
  from assms(2) ask key click show ?thesis
    by auto
qed

theorem query_blank_noop_witness:
  "(question blank_question_state = [] \<or> list_all isWhiteSpace (question blank_question_state)) \<and>
   ui (initial_sys\<lparr>ui := blank_question_state\<rparr>) = blank_question_state \<and>
   askQuestion blank_question_state = (blank_question_state, None) \<and>
   dispatch (QuestionKeyPress (lit ''Enter'')) blank_question_state = (blank_question_state, None)"
  using query_blank_noop [of blank_question_state "initial_sys\<lparr>ui := blank_question_state\<rparr>"
      "lit ''Enter''"]
  by (simp add: blank_question_state_def initial_state_def isWhiteSpace_def)


section \<open>C5: dropping a file\<close>

text \<open>
  C5. For every drop event, with \<open>f\<close> the dropped item (the first file of the event): if
  the declared type of \<open>f\<close> is exactly \<open>application/pdf\<close>, the selected file becomes \<open>f\<close>;
  if it is anything else, the selected file is unchanged and no error is surfaced (the
  upload outcome and the report are unchanged, and nothing but the drag-hover flag is
  written). A drop never starts a timer, and a drop that carries no file writes nothing but
  the drag-hover flag either.
\<close>

theorem drop_selects_pdf_only:
  assumes "dispatch (Drop (f # fs)) s = (s', t)"
  shows "(type f = lit ''application/pdf'' \<longrightarrow> file' s' = Some f) \<and>
         (type f \<noteq> lit ''application/pdf'' \<longrightarrow>
            file' s' = file' s \<and> uploadStatus s' = uploadStatus s \<and> report s' = report s \<and>
            s' = setIsDragging False s) \<and>
         t = None \<and>
         dispatch (Drop []) s = (setIsDragging False s, None)"
  using assms by (auto simp: dispatch_def handleDrop_def setters)

theorem drop_selects_pdf_only_witness:
  "type pdf_file = lit ''application/pdf'' \<and>
   file' (fst (dispatch (Drop [pdf_file]) initial_state)) = Some pdf_file \<and>
   type text_file \<noteq> lit ''application/pdf'' \<and>
   file' (fst (dispatch (Drop [text_file]) (setFile (Some pdf_file) initial_state))) = Some pdf_file \<and>
   uploadStatus (fst (dispatch (Drop [text_file]) (setFile (Some pdf_file) initial_state))) = None \<and>
   snd (dispatch (Drop [text_file]) (setFile (Some pdf_file) initial_state)) = None \<and>
   file' (fst (dispatch (Drop []) (setFile (Some pdf_file) initial_state))) = Some pdf_file"
  using
    drop_selects_pdf_only [of pdf_file "[]" initial_state
      "fst (dispatch (Drop [pdf_file]) initial_state)"
      "snd (dispatch (Drop [pdf_file]) initial_state)"]
    drop_selects_pdf_only [of text_file "[]" "setFile (Some pdf_file) initial_state"
      "fst (dispatch (Drop [text_file]) (setFile (Some pdf_file) initial_state))"
      "snd (dispatch (Drop [text_file]) (setFile (Some pdf_file) initial_state))"]
  by (simp add: pdf_file_def text_file_def lit_def initial_state_def setters)


section \<open>C6: the drag-hover flag\<close>

text \<open>
  C6 as specified includes drag-enter among the events that set the flag. The drop target
  has no handler for that event, so the flag stays as it was: here it stays false.
\<close>

theorem drag_enter_counterexample:
  "\<not> isDragging (fst (dispatch DragEnter initial_state))"
  by (simp add: dispatch_def initial_state_def)

text \<open>
  C6, amended. For every prior state of the drag-hover flag: a drag-over event sets the
  flag to true, a drag-leave event sets it to false, and a drop event sets it to false. A
  drag-enter event reaches no handler and leaves the state as it was.
\<close>

theorem drag_hover_flag:
  "isDragging (fst (dispatch DragOver s)) \<and>
   \<not> isDragging (fst (dispatch DragLeave s)) \<and>
   \<not> isDragging (fst (dispatch (Drop files) s)) \<and>
   dispatch DragEnter s = (s, None)"
  by (cases "first_file files")
     (simp_all add: dispatch_def handleDragOver_def handleDragLeave_def handleDrop_def Let_def
        setters)

theorem drag_hover_flag_witness:
  "isDragging (fst (dispatch DragOver initial_state)) \<and>
   \<not> isDragging (fst (dispatch DragLeave (setIsDragging True initial_state))) \<and>
   \<not> isDragging (fst (dispatch (Drop [text_file]) (setIsDragging True initial_state))) \<and>
   dispatch DragEnter initial_state = (initial_state, None)"
  using drag_hover_flag [of initial_state "[]"]
    drag_hover_flag [of "setIsDragging True initial_state" "[text_file]"]
  by simp


section \<open>C7: the error branches\<close>

text \<open>
  C7. The error branches of both simulations are unreachable. Every timer that an event
  starts, in any state, settles its promise as fulfilled, and so does every timer pending in
  a run of the component; hence in every state the component reaches, the upload outcome is
  not the error variant and the report is not the error text of the query.
\<close>

theorem error_branches_unreachable:
  "map_option (\<lambda>t. settle (callback t)) (snd (dispatch e s)) \<noteq> Some Rejected \<and>
   map_option (\<lambda>t. settle (callback t)) (timers (run acts initial_sys) i) \<noteq> Some Rejected \<and>
   map_option status_type (uploadStatus (ui (run acts initial_sys))) \<noteq> Some Error \<and>
   report (ui (run acts initial_sys)) \<noteq> query_error_text"
proof -
  have inv: "ok_inv (run acts initial_sys)"
    by (rule ok_inv_run [OF ok_inv_initial])
  have 1: "map_option (\<lambda>t. settle (callback t)) (timers (run acts initial_sys) i) \<noteq> Some Rejected"
    using inv by (cases "timers (run acts initial_sys) i") (auto simp: ok_inv_def)
  have 2: "map_option status_type (uploadStatus (ui (run acts initial_sys))) \<noteq> Some Error"
    using inv by (cases "uploadStatus (ui (run acts initial_sys))") (auto simp: ok_inv_def)
  have 3: "report (ui (run acts initial_sys)) \<noteq> query_error_text"
    using inv report_template_not_error empty_not_error by (auto simp: ok_inv_def)
  from dispatch_timer_resolves 1 2 3 show ?thesis
    by blast
qed

theorem error_branches_unreachable_witness:
  "map_option (\<lambda>t. settle (callback t)) (snd (dispatch UploadClick (setFile (Some pdf_file) initial_state))) =
     Some Fulfilled \<and>
   map_option (\<lambda>t. settle (callback t)) (timers (run sample_session initial_sys) 1) = Some Fulfilled \<and>
   map_option status_type (uploadStatus (ui (run sample_session initial_sys))) = Some Success \<and>
   report (ui (run (sample_session @ [Fire 1]) initial_sys)) = report_template sample_question \<and>
   report (ui (run (sample_session @ [Fire 1]) initial_sys)) \<noteq> query_error_text"
  using error_branches_unreachable [of UploadClick "setFile (Some pdf_file) initial_state"
      "sample_session @ [Fire 1]" 1]
  by (simp add: sample_session_def sample_question_def pdf_file_def eval_defs lit_def)


section \<open>C8: who writes the upload outcome\<close>

text \<open>
  C8 as specified lets only the completion of an upload change the outcome. The start of an
  upload changes it too: it clears the outcome of the previous upload, here while the second
  upload is still waiting for its timer.
\<close>

theorem upload_start_clears_outcome_counterexample:
  "uploadStatus (ui uploaded_sys) =
     Some \<lparr>status_type = Success, message = lit ''PDF uploaded: paper.pdf''\<rparr> \<and>
   uploadStatus (ui (sys_step (User UploadClick) uploaded_sys)) = None \<and>
   isUploading (ui (sys_step (User UploadClick) uploaded_sys)) \<and>
   timers (sys_step (User UploadClick) uploaded_sys) 1 = Some (delay 2000 (UploadAwait pdf_file))"
  by (simp add: uploaded_sys_def pdf_file_def lit_def eval_defs)

text \<open>
  C8, amended. The upload outcome is modified only by the upload operation: a step of the
  component that changes it is either the start of an upload, which clears it, or the
  completion of an upload, which sets it. No other operation changes it.
\<close>

theorem upload_outcome_writers:
  assumes "uploadStatus (ui (sys_step a \<sigma>)) \<noteq> uploadStatus (ui \<sigma>)"
  shows "(a = User UploadClick \<and> uploadStatus (ui (sys_step a \<sigma>)) = None) \<or> completes_upload a \<sigma>"
proof (cases a)
  case (User e)
  show ?thesis
  proof (cases "e = UploadClick")
    case True
    with assms User show ?thesis
      using upload_click_status [of "ui \<sigma>"]
      by (auto simp: schedule_ui split: prod.splits)
  next
    case False
    with assms User show ?thesis
      using handler_uploadStatus [of e "ui \<sigma>"]
      by (auto simp: schedule_ui split: prod.splits)
  qed
next
  case (Fire i)
  with assms show ?thesis
    by (auto simp: completes_upload_def upload_timer_def resume_def askQuestion_resume_def
        setters split: option.splits awaiter.splits settled.splits)
qed

theorem upload_outcome_writers_witness:
  "uploadStatus (ui (sys_step (User UploadClick) uploaded_sys)) \<noteq> uploadStatus (ui uploaded_sys) \<and>
   uploadStatus (ui (sys_step (User UploadClick) uploaded_sys)) = None \<and>
   uploadStatus (ui (sys_step (Fire 1) (sys_step (User UploadClick) uploaded_sys))) \<noteq>
     uploadStatus (ui (sys_step (User UploadClick) uploaded_sys)) \<and>
   completes_upload (Fire 1) (sys_step (User UploadClick) uploaded_sys)"
  using upload_outcome_writers [of "User UploadClick" uploaded_sys]
    upload_outcome_writers [of "Fire 1" "sys_step (User UploadClick) uploaded_sys"]
  by (simp add: uploaded_sys_def pdf_file_def lit_def eval_defs)


section \<open>C9: the selected file\<close>

text \<open>
  C9. A change event of the file input that carries no file (the dialog was cancelled)
  replaces the selected file by \<^verbatim>\<open>undefined\<close>: the selected file goes from present to
  absent. The drop handler guards against a missing first file; the file input does not.
  By \<open>selected_file_kept\<close>, this is the only action that removes a selected file.
\<close>

theorem file_input_cancel_removes_file:
  "file' (ui (run [User (FileInputChange [pdf_file])] initial_sys)) = Some pdf_file \<and>
   file' (ui (run [User (FileInputChange [pdf_file]), User (FileInputChange [])] initial_sys)) =
     None"
  by (simp add: eval_defs)


section \<open>C10: the query needs no file\<close>

text \<open>
  C10. In every state whose question text is neither empty nor whitespace only, the query
  does not depend on the selected file or on the upload outcome: changing either changes
  neither the timer the query starts nor what it writes; the query starts when both are
  absent; neither its start nor its completion touches them. Its completion writes the
  report, whatever the state it resumes in: a non-empty text that opens with the fixed
  sentence of the template around the question and so contains the question. On a fresh
  component, where no upload was ever performed, typing the question, asking and waiting
  yields that report, which differs from the initial empty one, and leaves every other field
  as it was initially.
\<close>

theorem query_ignores_file:
  assumes "question s \<noteq> []" and "\<not> list_all isWhiteSpace (question s)"
  shows "askQuestion (s\<lparr>file' := x, uploadStatus := u\<rparr>) =
           ((fst (askQuestion s))\<lparr>file' := x, uploadStatus := u\<rparr>, snd (askQuestion s)) \<and>
         snd (askQuestion (s\<lparr>file' := None, uploadStatus := None\<rparr>)) =
           Some (delay 3000 (AskAwait (question s))) \<and>
         file' (fst (askQuestion s)) = file' s \<and>
         uploadStatus (fst (askQuestion s)) = uploadStatus s \<and>
         report (resume (delay 3000 (AskAwait (question s))) s') = report_template (question s) \<and>
         report (resume (delay 3000 (AskAwait (question s))) s') \<noteq> [] \<and>
         sublist (question s) (report (resume (delay 3000 (AskAwait (question s))) s')) \<and>
         prefix
           (lit ''Based on the uploaded document, here's what I found regarding \"'' @
            question s @ lit ''\":'')
           (report (resume (delay 3000 (AskAwait (question s))) s')) \<and>
         file' (resume (delay 3000 (AskAwait (question s))) s') = file' s' \<and>
         uploadStatus (resume (delay 3000 (AskAwait (question s))) s') = uploadStatus s' \<and>
         ui (run [User (QuestionInputChange (question s)), User AskClick, Fire 0] initial_sys) =
           initial_state\<lparr>question := question s, report := report_template (question s)\<rparr> \<and>
         report (ui (run [User (QuestionInputChange (question s)), User AskClick, Fire 0]
                      initial_sys)) \<noteq> report (ui initial_sys) \<and>
         sublist (question s)
           (report (ui (run [User (QuestionInputChange (question s)), User AskClick, Fire 0]
                         initial_sys)))"
proof -
  have nb: "truthy (trim (question s))"
    using assms(2) by (rule not_blank)
  then have "askQuestion (s\<lparr>file' := x, uploadStatus := u\<rparr>) =
      ((fst (askQuestion s))\<lparr>file' := x, uploadStatus := u\<rparr>, snd (askQuestion s))"
    and "snd (askQuestion (s\<lparr>file' := None, uploadStatus := None\<rparr>)) =
      Some (delay 3000 (AskAwait (question s)))"
    and "file' (fst (askQuestion s)) = file' s"
    and "uploadStatus (fst (askQuestion s)) = uploadStatus s"
    by (simp_all add: askQuestion_def setters)
  moreover have written:
    "report (resume (delay 3000 (AskAwait (question s))) s') = report_template (question s)"
    by (simp add: resume_ask)
  moreover have "report (resume (delay 3000 (AskAwait (question s))) s') \<noteq> []"
    and "sublist (question s) (report (resume (delay 3000 (AskAwait (question s))) s'))"
    and "prefix
           (lit ''Based on the uploaded document, here's what I found regarding \"'' @
            question s @ lit ''\":'')
           (report (resume (delay 3000 (AskAwait (question s))) s'))"
    unfolding written by (rule report_nonempty question_in_report report_opening)+
  moreover have "file' (resume (delay 3000 (AskAwait (question s))) s') = file' s'"
    and "uploadStatus (resume (delay 3000 (AskAwait (question s))) s') = uploadStatus s'"
    by (simp_all add: resume_ask)
  moreover have fresh:
    "ui (run [User (QuestionInputChange (question s)), User AskClick, Fire 0] initial_sys) =
      initial_state\<lparr>question := question s, report := report_template (question s)\<rparr>"
    using nb
    by (simp add: run_def initial_sys_def initial_state_def dispatch_def questionInput_onChange_def
        askQuestion_def resume_def askQuestion_resume_def delay_def setters)
  moreover have "report (ui (run [User (QuestionInputChange (question s)), User AskClick, Fire 0]
                      initial_sys)) \<noteq> report (ui initial_sys)"
    unfolding fresh using report_nonempty [of "question s"]
    by (simp add: initial_sys_def initial_state_def)
  moreover have "sublist (question s)
           (report (ui (run [User (QuestionInputChange (question s)), User AskClick, Fire 0]
                         initial_sys)))"
    unfolding fresh using question_in_report [of "question s"] by simp
  ultimately show ?thesis
    by (intro conjI) assumption+
qed

theorem query_ignores_file_witness:
  "question (setQuestion sample_question initial_state) \<noteq> [] \<and>
   \<not> list_all isWhiteSpace (question (setQuestion sample_question initial_state)) \<and>
   file' (setQuestion sample_question initial_state) = None \<and>
   uploadStatus (setQuestion sample_question initial_state) = None \<and>
   snd (askQuestion (setQuestion sample_question initial_state)) =
     Some (delay 3000 (AskAwait sample_question)) \<and>
   report (resume (delay 3000 (AskAwait sample_question)) initial_state) \<noteq> [] \<and>
   sublist sample_question (report (resume (delay 3000 (AskAwait sample_question)) initial_state)) \<and>
   prefix
     (lit ''Based on the uploaded document, here's what I found regarding \"'' @
      sample_question @ lit ''\":'')
     (report (resume (delay 3000 (AskAwait sample_question)) initial_state)) \<and>
   ui (run [User (QuestionInputChange sample_question), User AskClick, Fire 0] initial_sys) =
     initial_state\<lparr>question := sample_question, report := report_template sample_question\<rparr> \<and>
   report (ui (run [User (QuestionInputChange sample_question), User AskClick, Fire 0]
                initial_sys)) \<noteq> report (ui initial_sys) \<and>
   sublist sample_question
     (report (ui (run [User (QuestionInputChange sample_question), User AskClick, Fire 0]
                   initial_sys)))"
proof -
  have q: "question (setQuestion sample_question initial_state) = sample_question"
    by (simp add: setters)
  have same: "(setQuestion sample_question initial_state)\<lparr>file' := None, uploadStatus := None\<rparr> =
      setQuestion sample_question initial_state"
    by (simp add: setters initial_state_def)
  have h: "question (setQuestion sample_question initial_state) \<noteq> []"
    "\<not> list_all isWhiteSpace (question (setQuestion sample_question initial_state))"
    using sample_question_not_blank by (simp_all add: q)
  have absent: "file' (setQuestion sample_question initial_state) = None"
    "uploadStatus (setQuestion sample_question initial_state) = None"
    by (simp_all add: setters initial_state_def)
  from h absent
    query_ignores_file [OF h, of None None initial_state, unfolded q same]
  show ?thesis
    by blast
qed

end
